theory Spec2Isabelle
  imports Main "HOL-Library.AList"
begin

section \<open>Exceptions\<close>

text \<open>
  Every \<^verbatim>\<open>raise\<close> of \<^verbatim>\<open>plugins/inventory/cluster.py\<close> (and every exception of a
  Python builtin the code relies on) is a value of this type; the string is the constant
  part of the message and only tells the raise sites apart.
\<close>

datatype error =
    ValueError string
  | RuntimeError string
  | TypeError string
  | KeyError string
  | AnsibleError string

section \<open>Python dictionaries\<close>

text \<open>
  A Python \<^verbatim>\<open>dict\<close> keeps its keys in insertion order. It is an association list
  with pairwise different keys: \<^const>\<open>map_of\<close> reads it, \<^const>\<open>AList.update\<close> is
  \<^verbatim>\<open>d[k] = v\<close> (an existing key keeps its place, a new one goes last) and
  \<^const>\<open>AList.delete\<close> is \<^verbatim>\<open>del d[k]\<close>.
\<close>

definition counter_get :: "(string \<times> int) list \<Rightarrow> string \<Rightarrow> int" where
  "counter_get cs k = (case map_of cs k of None \<Rightarrow> 0 | Some c \<Rightarrow> c)"

text \<open>\<^verbatim>\<open>min(first, *rest, key=key)\<close>: the first of the smallest elements.\<close>

fun py_min_by :: "('a \<Rightarrow> int) \<Rightarrow> 'a \<Rightarrow> 'a list \<Rightarrow> 'a" where
  "py_min_by key best [] = best"
| "py_min_by key best (x # xs) = py_min_by key (if key x < key best then x else best) xs"

section \<open>ValueManager\<close>

record ValueManager =
  vm_values :: "string list"
  vm_counts :: "(string \<times> int) list"

text \<open>\<^verbatim>\<open>Counter({value: 0 for value in self._values})\<close>\<close>

definition ValueManager_init :: "string list \<Rightarrow> ValueManager" where
  "ValueManager_init vs =
     \<lparr>vm_values = vs, vm_counts = foldl (\<lambda>d v. AList.update v 0 d) [] vs\<rparr>"

definition get_next :: "ValueManager \<Rightarrow> error + (string \<times> ValueManager)" where
  "get_next vm =
     (case vm_counts vm of
        [] \<Rightarrow> Inl (ValueError ''min() arg is an empty sequence'')
      | x # xs \<Rightarrow>
          (let min_value = fst (py_min_by snd x xs)
           in Inr (min_value,
                   vm\<lparr>vm_counts :=
                        AList.update min_value (counter_get (vm_counts vm) min_value + 1)
                          (vm_counts vm)\<rparr>)))"

definition increment :: "ValueManager \<Rightarrow> string \<Rightarrow> error + ValueManager" where
  "increment vm item =
     (if item \<notin> set (vm_values vm) then Inl (ValueError ''Item not found!'')
      else Inr (vm\<lparr>vm_counts :=
                     AList.update item (counter_get (vm_counts vm) item + 1) (vm_counts vm)\<rparr>))"

text \<open>\<open>n\<close> consecutive calls of \<^verbatim>\<open>get_next\<close>, with the values they return.\<close>

fun get_next_n :: "nat \<Rightarrow> ValueManager \<Rightarrow> error + (string list \<times> ValueManager)" where
  "get_next_n 0 vm = Inr ([], vm)"
| "get_next_n (Suc n) vm =
     (case get_next vm of
        Inl e \<Rightarrow> Inl e
      | Inr (v, vm') \<Rightarrow>
          (case get_next_n n vm' of
             Inl e \<Rightarrow> Inl e
           | Inr (vs, vm'') \<Rightarrow> Inr (v # vs, vm'')))"


text \<open>
  The order in which the candidates were declared, each named once: the key order of the
  \<^verbatim>\<open>Counter\<close>.
\<close>

definition first_occurrences :: "'a list \<Rightarrow> 'a list" where
  "first_occurrences xs = rev (remdups (rev xs))"

text \<open>The states a \<^verbatim>\<open>ValueManager\<close> object can be in: built by the constructor, changed by its two methods.\<close>

inductive reachable :: "ValueManager \<Rightarrow> bool" where
  fresh: "reachable (ValueManager_init vs)"
| after_next: "reachable vm \<Longrightarrow> get_next vm = Inr (v, vm') \<Longrightarrow> reachable vm'"
| after_increment: "reachable vm \<Longrightarrow> increment vm item = Inr vm' \<Longrightarrow> reachable vm'"

definition balanced :: "(string \<times> int) list \<Rightarrow> bool" where
  "balanced cs \<longleftrightarrow> (\<exists>m. \<forall>c\<in>snd ` set cs. m \<le> c \<and> c \<le> m + 1)"

section \<open>Python strings and numbers\<close>

text \<open>Strings are ASCII text, one \<^typ>\<open>char\<close> per code point.\<close>

definition is_digit :: "char \<Rightarrow> bool" where
  "is_digit c \<longleftrightarrow> c \<in> set ''0123456789''"

definition digit_val :: "char \<Rightarrow> nat" where
  "digit_val c = of_char c - 48"

definition digits_val :: "string \<Rightarrow> nat" where
  "digits_val s = foldl (\<lambda>n c. 10 * n + digit_val c) 0 s"

definition digit_char :: "nat \<Rightarrow> char" where
  "digit_char n = ''0123456789'' ! (n mod 10)"

text \<open>\<^verbatim>\<open>str(n)\<close> for an integer.\<close>

fun str_of_nat :: "nat \<Rightarrow> string" where
  "str_of_nat n = (if n < 10 then [digit_char n] else str_of_nat (n div 10) @ [digit_char n])"

declare str_of_nat.simps [simp del]

definition str_of_int :: "int \<Rightarrow> string" where
  "str_of_int i = (if i < 0 then CHR ''-'' # str_of_nat (nat (- i)) else str_of_nat (nat i))"

text \<open>\<^verbatim>\<open>s.split(sep)\<close> for a separator of one character.\<close>

fun split_on :: "char \<Rightarrow> string \<Rightarrow> string list" where
  "split_on sep [] = [[]]"
| "split_on sep (c # cs) =
     (if c = sep then [] # split_on sep cs
      else (case split_on sep cs of [] \<Rightarrow> [[c]] | w # ws \<Rightarrow> (c # w) # ws))"

text \<open>\<^verbatim>\<open>sub in s\<close> for two strings.\<close>

fun str_contains :: "string \<Rightarrow> string \<Rightarrow> bool" where
  "str_contains [] sub = (sub = [])"
| "str_contains (c # cs) sub = (take (length sub) (c # cs) = sub \<or> str_contains cs sub)"

text \<open>\<^verbatim>\<open>s.replace(a, b)\<close> for two single characters.\<close>

definition replace_char :: "char \<Rightarrow> char \<Rightarrow> string \<Rightarrow> string" where
  "replace_char a b s = map (\<lambda>c. if c = a then b else c) s"

definition rstrip_chars :: "string \<Rightarrow> string \<Rightarrow> string" where
  "rstrip_chars cs s = rev (dropWhile (\<lambda>c. c \<in> set cs) (rev s))"

definition is_space :: "char \<Rightarrow> bool" where
  "is_space c \<longleftrightarrow> of_char c \<in> {9, 10, 11, 12, 13, 28, 29, 30, 31, 32 :: nat}"

definition strip :: "string \<Rightarrow> string" where
  "strip s = rev (dropWhile is_space (rev (dropWhile is_space s)))"

text \<open>
  \<^verbatim>\<open>int(s)\<close> for a string: surrounding white space, an optional sign, decimal digits with
  single underscores between them. \<open>None\<close> is the \<^verbatim>\<open>ValueError\<close>.
\<close>

fun int_digits :: "string \<Rightarrow> nat \<Rightarrow> nat option" where
  "int_digits [] acc = Some acc"
| "int_digits (c # cs) acc =
     (if is_digit c then int_digits cs (10 * acc + digit_val c)
      else if c = CHR ''_'' then
        (case cs of
           [] \<Rightarrow> None
         | d # ds \<Rightarrow> if is_digit d then int_digits ds (10 * acc + digit_val d) else None)
      else None)"

definition int_unsigned :: "string \<Rightarrow> nat option" where
  "int_unsigned s =
     (case s of [] \<Rightarrow> None | d # ds \<Rightarrow> if is_digit d then int_digits ds (digit_val d) else None)"

definition py_int_of_str :: "string \<Rightarrow> int option" where
  "py_int_of_str s =
     (case strip s of
        [] \<Rightarrow> None
      | c # cs \<Rightarrow>
          if c = CHR ''-'' then map_option (\<lambda>n. - int n) (int_unsigned cs)
          else if c = CHR ''+'' then map_option int (int_unsigned cs)
          else map_option int (int_unsigned (c # cs)))"

section \<open>The ipaddress library\<close>

text \<open>
  An \<^verbatim>\<open>IPv4Address\<close> is its 32-bit number; an \<^verbatim>\<open>IPv4Network\<close> is its network address and
  prefix length. The constructors parse text as the library does: four decimal octets
  without leading zeros; a network as \<^verbatim>\<open>address\<close>, \<^verbatim>\<open>address/prefix\<close> or
  \<^verbatim>\<open>address/mask\<close>, refused when host bits are set.
\<close>

definition parse_octet :: "string \<Rightarrow> nat option" where
  "parse_octet s =
     (if s = [] then None
      else if \<not> list_all is_digit s then None
      else if length s > 3 then None
      else if s \<noteq> ''0'' \<and> hd s = CHR ''0'' then None
      else if digits_val s > 255 then None
      else Some (digits_val s))"

definition ip_int_from_string :: "string \<Rightarrow> nat option" where
  "ip_int_from_string s =
     (if s = [] then None
      else (case map parse_octet (split_on CHR ''.'' s) of
              [Some a, Some b, Some c, Some d] \<Rightarrow> Some (((a * 256 + b) * 256 + c) * 256 + d)
            | _ \<Rightarrow> None))"

definition IPv4Address :: "string \<Rightarrow> nat option" where
  "IPv4Address s = (if CHR ''/'' \<in> set s then None else ip_int_from_string s)"

definition str_of_ip :: "nat \<Rightarrow> string" where
  "str_of_ip n =
     str_of_nat (n div 16777216 mod 256) @ ''.'' @ str_of_nat (n div 65536 mod 256) @ ''.'' @
     str_of_nat (n div 256 mod 256) @ ''.'' @ str_of_nat (n mod 256)"

record IPv4Network =
  network_address :: nat
  prefixlen :: nat

definition prefix_from_ip_int :: "nat \<Rightarrow> nat option" where
  "prefix_from_ip_int n = find (\<lambda>p. n = 2 ^ 32 - 2 ^ (32 - p)) [0..<33]"

definition make_netmask :: "string \<Rightarrow> nat option" where
  "make_netmask arg =
     (if arg \<noteq> [] \<and> list_all is_digit arg \<and> digits_val arg \<le> 32 then Some (digits_val arg)
      else (case ip_int_from_string arg of
              None \<Rightarrow> None
            | Some n \<Rightarrow>
                (case prefix_from_ip_int n of
                   Some p \<Rightarrow> Some p
                 | None \<Rightarrow> prefix_from_ip_int (2 ^ 32 - 1 - n))))"

definition IPv4Network_of_str :: "string \<Rightarrow> error + IPv4Network" where
  "IPv4Network_of_str s =
     (case split_on CHR ''/'' s of
        [a] \<Rightarrow>
          (case IPv4Address a of
             None \<Rightarrow> Inl (ValueError ''AddressValueError'')
           | Some n \<Rightarrow> Inr \<lparr>network_address = n, prefixlen = 32\<rparr>)
      | [a, m] \<Rightarrow>
          (case IPv4Address a of
             None \<Rightarrow> Inl (ValueError ''AddressValueError'')
           | Some n \<Rightarrow>
               (case make_netmask m of
                  None \<Rightarrow> Inl (ValueError ''NetmaskValueError'')
                | Some p \<Rightarrow>
                    if n mod 2 ^ (32 - p) \<noteq> 0 then Inl (ValueError ''has host bits set'')
                    else Inr \<lparr>network_address = n, prefixlen = p\<rparr>))
      | _ \<Rightarrow> Inl (ValueError ''AddressValueError''))"

text \<open>
  \<^verbatim>\<open>network.hosts()\<close>: every address between the network and the broadcast address; both
  addresses of a /31 and the one address of a /32.
\<close>

definition hosts :: "IPv4Network \<Rightarrow> nat list" where
  "hosts net =
     (if prefixlen net = 31 then [network_address net, network_address net + 1]
      else if prefixlen net = 32 then [network_address net]
      else [network_address net + 1 ..< network_address net + 2 ^ (32 - prefixlen net) - 1])"

section \<open>NetworkManager\<close>

text \<open>
  \<open>nm_ip_iter\<close> is the generator \<^verbatim>\<open>_host_ip_generator\<close>: the host addresses it has not
  passed yet.
\<close>

record NetworkManager =
  nm_network :: IPv4Network
  nm_assigned :: "nat set"
  nm_ip_iter :: "nat list"

definition NetworkManager_init :: "string \<Rightarrow> error + NetworkManager" where
  "NetworkManager_init network =
     (case IPv4Network_of_str network of
        Inl e \<Rightarrow> Inl e
      | Inr net \<Rightarrow> Inr \<lparr>nm_network = net, nm_assigned = {}, nm_ip_iter = hosts net\<rparr>)"

text \<open>\<^verbatim>\<open>next(self._ip_iter)\<close>: the generator skips the addresses that are assigned when it reaches them.\<close>

fun host_ip_generator_next :: "nat set \<Rightarrow> nat list \<Rightarrow> (nat \<times> nat list) option" where
  "host_ip_generator_next assigned [] = None"
| "host_ip_generator_next assigned (ip # rest) =
     (if ip \<notin> assigned then Some (ip, rest) else host_ip_generator_next assigned rest)"

function get_next_ip_addr :: "NetworkManager \<Rightarrow> error + (nat \<times> NetworkManager)" where
  "get_next_ip_addr nm =
     (case host_ip_generator_next (nm_assigned nm) (nm_ip_iter nm) of
        None \<Rightarrow> Inl (RuntimeError ''No available IPs left in the network.'')
      | Some (ip, rest) \<Rightarrow>
          if ip \<notin> nm_assigned nm
          then Inr (ip, nm\<lparr>nm_assigned := insert ip (nm_assigned nm), nm_ip_iter := rest\<rparr>)
          else get_next_ip_addr (nm\<lparr>nm_ip_iter := rest\<rparr>))"
  by pat_completeness auto
termination
proof (relation "measure (\<lambda>nm. length (nm_ip_iter nm))")
  show "wf (measure (\<lambda>nm. length (nm_ip_iter nm)))" by simp
next
  fix nm :: NetworkManager and x2 ip rest
  assume a: "host_ip_generator_next (nm_assigned nm) (nm_ip_iter nm) = Some x2" "(ip, rest) = x2"
  have "host_ip_generator_next A xs = Some (i, r) \<Longrightarrow> length r < length xs" for A xs i r
    by (induction xs) (auto split: if_splits)
  with a have "length rest < length (nm_ip_iter nm)" by metis
  then show "(nm\<lparr>nm_ip_iter := rest\<rparr>, nm) \<in> measure (\<lambda>nm. length (nm_ip_iter nm))" by simp
qed

declare get_next_ip_addr.simps [simp del]

definition get_next_ip :: "NetworkManager \<Rightarrow> error + (string \<times> NetworkManager)" where
  "get_next_ip nm =
     (case get_next_ip_addr nm of Inl e \<Rightarrow> Inl e | Inr (ip, nm') \<Rightarrow> Inr (str_of_ip ip, nm'))"

definition reserve_ip :: "NetworkManager \<Rightarrow> string \<Rightarrow> error + NetworkManager" where
  "reserve_ip nm ip =
     (case IPv4Address ip of
        None \<Rightarrow> Inl (ValueError ''AddressValueError'')
      | Some ip_addr \<Rightarrow>
          if ip_addr \<notin> set (hosts (nm_network nm))
          then Inl (ValueError ''IP is not a valid host address in the network'')
          else if ip_addr \<in> nm_assigned nm then Inl (ValueError ''IP is already reserved.'')
          else Inr (nm\<lparr>nm_assigned := insert ip_addr (nm_assigned nm)\<rparr>))"

text \<open>\<open>n\<close> consecutive calls of \<^verbatim>\<open>get_next_ip\<close>, stopping at the first that raises.\<close>

fun get_next_ip_n :: "nat \<Rightarrow> NetworkManager \<Rightarrow> error + (string list \<times> NetworkManager)" where
  "get_next_ip_n 0 nm = Inr ([], nm)"
| "get_next_ip_n (Suc n) nm =
     (case get_next_ip nm of
        Inl e \<Rightarrow> Inl e
      | Inr (ip, nm') \<Rightarrow>
          (case get_next_ip_n n nm' of
             Inl e \<Rightarrow> Inl e
           | Inr (ips, nm'') \<Rightarrow> Inr (ip # ips, nm'')))"

text \<open>The states of a \<^verbatim>\<open>NetworkManager\<close> object: built by the constructor, changed by its two methods.\<close>

inductive nm_reachable :: "NetworkManager \<Rightarrow> bool" where
  constructed: "NetworkManager_init network = Inr nm \<Longrightarrow> nm_reachable nm"
| after_get_next_ip: "nm_reachable nm \<Longrightarrow> get_next_ip nm = Inr (ip, nm') \<Longrightarrow> nm_reachable nm'"
| after_reserve_ip: "nm_reachable nm \<Longrightarrow> reserve_ip nm ip = Inr nm' \<Longrightarrow> nm_reachable nm'"

section \<open>Configuration values\<close>

text \<open>
  What the YAML loader hands to the plugin: \<^verbatim>\<open>None\<close>, booleans, integers, strings, lists of
  strings and mappings with string keys.
\<close>

datatype pyval =
    PNone
  | PBool bool
  | PInt int
  | PStr string
  | PList "string list"
  | PDict "(string \<times> pyval) list"

text \<open>Truth value of an object, as \<^verbatim>\<open>if x\<close> and \<^verbatim>\<open>not x\<close> test it.\<close>

fun truthy :: "pyval \<Rightarrow> bool" where
  "truthy PNone = False"
| "truthy (PBool b) = b"
| "truthy (PInt n) = (n \<noteq> 0)"
| "truthy (PStr s) = (s \<noteq> [])"
| "truthy (PList l) = (l \<noteq> [])"
| "truthy (PDict d) = (d \<noteq> [])"

text \<open>An object used as a number in \<^verbatim>\<open>+\<close> and \<^verbatim>\<open>-\<close>: integers, and booleans as 0 and 1.\<close>

fun as_number :: "pyval \<Rightarrow> int option" where
  "as_number (PInt n) = Some n"
| "as_number (PBool b) = Some (if b then 1 else 0)"
| "as_number _ = None"

section \<open>HostTimeAssigner\<close>

text \<open>
  \<^verbatim>\<open>datetime.strptime(s, "%H:%M")\<close>: an hour of one or two digits up to 23, a colon, a minute of
  one or two digits up to 59. All times of the class are on one day, so a time is the number
  of minutes since midnight.
\<close>

definition parse_hour :: "string \<Rightarrow> nat option" where
  "parse_hour s =
     (if (length s = 1 \<or> length s = 2) \<and> list_all is_digit s \<and> digits_val s \<le> 23
      then Some (digits_val s) else None)"

definition parse_minute :: "string \<Rightarrow> nat option" where
  "parse_minute s =
     (if (length s = 1 \<or> length s = 2) \<and> list_all is_digit s \<and> digits_val s \<le> 59
      then Some (digits_val s) else None)"

definition strptime_HM :: "string \<Rightarrow> nat option" where
  "strptime_HM s =
     (case split_on CHR '':'' s of
        [h, m] \<Rightarrow>
          (case parse_hour h of
             None \<Rightarrow> None
           | Some hh \<Rightarrow> (case parse_minute m of None \<Rightarrow> None | Some mm \<Rightarrow> Some (hh * 60 + mm)))
      | _ \<Rightarrow> None)"

text \<open>\<^verbatim>\<open>slot.strftime("%H:%M")\<close>\<close>

definition two_digits :: "nat \<Rightarrow> string" where
  "two_digits n = [digit_char (n div 10), digit_char n]"

definition strftime_HM :: "nat \<Rightarrow> string" where
  "strftime_HM t = two_digits (t div 60 mod 24) @ '':'' @ two_digits (t mod 60)"

record HostTimeAssigner =
  hta_start_time :: nat
  hta_end_time :: nat
  hta_groups :: "(string \<times> pyval) list"
  hta_total_hosts :: int
  hta_group_slots :: "(string \<times> nat list) list"
  hta_group_slot_index :: "(string \<times> nat) list"

text \<open>
  \<^verbatim>\<open>sum(groups.values())\<close> adds numbers and raises on anything else. The function also returns
  the counts as the integers the later arithmetic sees.
\<close>

fun group_numbers :: "(string \<times> pyval) list \<Rightarrow> error + (string \<times> int) list" where
  "group_numbers [] = Inr []"
| "group_numbers ((g, v) # rest) =
     (case as_number v of
        None \<Rightarrow> Inl (TypeError ''unsupported operand type(s) for +'')
      | Some n \<Rightarrow>
          (case group_numbers rest of Inl e \<Rightarrow> Inl e | Inr ns \<Rightarrow> Inr ((g, n) # ns)))"

text \<open>
  One run of the \<^verbatim>\<open>for\<close> loop of \<^verbatim>\<open>_interleave_groups\<close> over the keys the dictionary had when
  the run began.
\<close>

fun interleave_pass ::
  "string list \<Rightarrow> string list \<Rightarrow> (string \<times> int) list \<Rightarrow> error + (string list \<times> (string \<times> int) list)"
where
  "interleave_pass [] result group_counts = Inr (result, group_counts)"
| "interleave_pass (grp # grps) result group_counts =
     (case map_of group_counts grp of
        None \<Rightarrow> Inl (KeyError grp)
      | Some c \<Rightarrow>
          interleave_pass grps (result @ [grp])
            (if c - 1 = 0 then AList.delete grp (AList.update grp (c - 1) group_counts)
             else AList.update grp (c - 1) group_counts))"

text \<open>
  The \<^verbatim>\<open>while group_counts\<close> loop. A group whose count is zero or negative is never removed
  and the loop does not end: the result is then \<open>None\<close>.
\<close>

partial_function (option) interleave_loop ::
  "string list \<Rightarrow> (string \<times> int) list \<Rightarrow> (error + string list) option"
where
  "interleave_loop result group_counts =
     (if group_counts = [] then Some (Inr result)
      else (case interleave_pass (map fst group_counts) result group_counts of
              Inl e \<Rightarrow> Some (Inl e)
            | Inr (result', group_counts') \<Rightarrow> interleave_loop result' group_counts'))"

declare interleave_loop.simps [code]

definition interleave_groups :: "(string \<times> int) list \<Rightarrow> (error + string list) option" where
  "interleave_groups group_counts = interleave_loop [] group_counts"

text \<open>\<^verbatim>\<open>for slot, group in zip(all_slots, round_robin): self._group_slots[group].append(slot)\<close>\<close>

fun assign_slots ::
  "(nat \<times> string) list \<Rightarrow> (string \<times> nat list) list \<Rightarrow> error + (string \<times> nat list) list"
where
  "assign_slots [] group_slots = Inr group_slots"
| "assign_slots ((slot, grp) # rest) group_slots =
     (case map_of group_slots grp of
        None \<Rightarrow> Inl (KeyError grp)
      | Some slots \<Rightarrow> assign_slots rest (AList.update grp (slots @ [slot]) group_slots))"

definition all_slots :: "nat \<Rightarrow> nat \<Rightarrow> int \<Rightarrow> nat list" where
  "all_slots start_time total_minutes total_hosts =
     (if total_hosts \<le> 1 then [start_time]
      else (let step = total_minutes div (nat total_hosts - 1)
            in map (\<lambda>i. start_time + i * step) [0..<nat total_hosts]))"

definition HostTimeAssigner_init ::
  "(string \<times> pyval) list \<Rightarrow> string \<Rightarrow> string \<Rightarrow> (error + HostTimeAssigner) option"
where
  "HostTimeAssigner_init groups start_time_str end_time_str =
     (case (strptime_HM start_time_str, strptime_HM end_time_str) of
        (Some start_time, Some end_time) \<Rightarrow>
          if end_time \<le> start_time then Some (Inl (ValueError ''End time must be after start time''))
          else
            (case group_numbers groups of
               Inl e \<Rightarrow> Some (Inl e)
             | Inr counts \<Rightarrow>
                 (let total_hosts = sum_list (map snd counts);
                      total_minutes = end_time - start_time
                  in if total_hosts = 0 then Some (Inl (ValueError ''No hosts defined in any group''))
                     else if total_hosts > int total_minutes
                     then Some (Inl (ValueError ''Not enough minutes in time window for all hosts.''))
                     else
                       (case interleave_groups counts of
                          None \<Rightarrow> None
                        | Some (Inl e) \<Rightarrow> Some (Inl e)
                        | Some (Inr round_robin) \<Rightarrow>
                            (case assign_slots
                                    (zip (all_slots start_time total_minutes total_hosts) round_robin)
                                    (foldl (\<lambda>d g. AList.update g [] d) [] (map fst groups)) of
                               Inl e \<Rightarrow> Some (Inl e)
                             | Inr group_slots \<Rightarrow>
                                 Some (Inr \<lparr>hta_start_time = start_time, hta_end_time = end_time,
                                            hta_groups = groups, hta_total_hosts = total_hosts,
                                            hta_group_slots = group_slots,
                                            hta_group_slot_index =
                                              foldl (\<lambda>d g. AList.update g 0 d) [] (map fst groups)\<rparr>)))))
      | _ \<Rightarrow> Some (Inl (ValueError ''Invalid time format. Expected HH:MM'')))"

definition get_next_slot :: "HostTimeAssigner \<Rightarrow> string \<Rightarrow> error + (string \<times> HostTimeAssigner)" where
  "get_next_slot hta group_name =
     (case map_of (hta_group_slots hta) group_name of
        None \<Rightarrow> Inl (ValueError ''Unknown group'')
      | Some slots \<Rightarrow>
          (case map_of (hta_group_slot_index hta) group_name of
             None \<Rightarrow> Inl (KeyError group_name)
           | Some idx \<Rightarrow>
               if idx \<ge> length slots then Inl (ValueError ''All slots for group have been assigned.'')
               else Inr (strftime_HM (slots ! idx),
                         hta\<lparr>hta_group_slot_index :=
                               AList.update group_name (idx + 1) (hta_group_slot_index hta)\<rparr>)))"

definition get_all_slots :: "HostTimeAssigner \<Rightarrow> string \<Rightarrow> error + string list" where
  "get_all_slots hta group_name =
     (case map_of (hta_group_slots hta) group_name of
        None \<Rightarrow> Inl (ValueError ''Unknown group'')
      | Some slots \<Rightarrow> Inr (map strftime_HM slots))"

section \<open>Properties of ValueManager\<close>

lemma py_min_by_cases:
  "(py_min_by key best xs = best \<and> (\<forall>x\<in>set xs. key best \<le> key x)) \<or>
   (\<exists>pre post. xs = pre @ py_min_by key best xs # post \<and> key (py_min_by key best xs) < key best \<and>
       (\<forall>p\<in>set pre. key (py_min_by key best xs) < key p) \<and>
       (\<forall>q\<in>set post. key (py_min_by key best xs) \<le> key q))"
proof (induction xs arbitrary: best)
  case Nil
  then show ?case by simp
next
  case (Cons x xs)
  show ?case
  proof (cases "key x < key best")
    case True
    from Cons.IH [of x] show ?thesis
    proof
      assume a: "py_min_by key x xs = x \<and> (\<forall>y\<in>set xs. key x \<le> key y)"
      have "x # xs = [] @ py_min_by key best (x # xs) # xs" using True a by simp
      then show ?thesis using True a by (intro disjI2 exI[of _ "[]"] exI[of _ xs]) auto
    next
      assume "\<exists>pre post. xs = pre @ py_min_by key x xs # post \<and> key (py_min_by key x xs) < key x \<and>
       (\<forall>p\<in>set pre. key (py_min_by key x xs) < key p) \<and>
       (\<forall>q\<in>set post. key (py_min_by key x xs) \<le> key q)"
      then obtain pre post where p: "xs = pre @ py_min_by key x xs # post" "key (py_min_by key x xs) < key x"
       "(\<forall>p\<in>set pre. key (py_min_by key x xs) < key p)"
       "(\<forall>q\<in>set post. key (py_min_by key x xs) \<le> key q)" by blast
      have "x # xs = (x # pre) @ py_min_by key best (x # xs) # post" using True p(1) by simp
      then show ?thesis using True p(2-) by (intro disjI2 exI[of _ "x # pre"] exI[of _ post]) auto
    qed
  next
    case False
    from Cons.IH [of best] show ?thesis
    proof
      assume a: "py_min_by key best xs = best \<and> (\<forall>y\<in>set xs. key best \<le> key y)"
      then show ?thesis using False by auto
    next
      assume "\<exists>pre post. xs = pre @ py_min_by key best xs # post \<and> key (py_min_by key best xs) < key best \<and>
       (\<forall>p\<in>set pre. key (py_min_by key best xs) < key p) \<and>
       (\<forall>q\<in>set post. key (py_min_by key best xs) \<le> key q)"
      then obtain pre post where p: "xs = pre @ py_min_by key best xs # post" "key (py_min_by key best xs) < key best"
       "(\<forall>p\<in>set pre. key (py_min_by key best xs) < key p)"
       "(\<forall>q\<in>set post. key (py_min_by key best xs) \<le> key q)" by blast
      have "x # xs = (x # pre) @ py_min_by key best (x # xs) # post" using False p(1) by simp
      then show ?thesis using False p(2-) by (intro disjI2 exI[of _ "x # pre"] exI[of _ post]) auto
    qed
  qed
qed

lemma py_min_by_first:
  "\<exists>pre post. x # xs = pre @ py_min_by key x xs # post \<and>
       (\<forall>p\<in>set pre. key (py_min_by key x xs) < key p) \<and>
       (\<forall>q\<in>set post. key (py_min_by key x xs) \<le> key q)"
  using py_min_by_cases [of key x xs]
proof
  assume "py_min_by key x xs = x \<and> (\<forall>y\<in>set xs. key x \<le> key y)"
  then show ?thesis by (intro exI[of _ "[]"] exI[of _ xs]) simp
next
  assume "\<exists>pre post. xs = pre @ py_min_by key x xs # post \<and> key (py_min_by key x xs) < key x \<and>
       (\<forall>p\<in>set pre. key (py_min_by key x xs) < key p) \<and>
       (\<forall>q\<in>set post. key (py_min_by key x xs) \<le> key q)"
  then obtain pre post where p: "xs = pre @ py_min_by key x xs # post" "key (py_min_by key x xs) < key x"
       "(\<forall>p\<in>set pre. key (py_min_by key x xs) < key p)"
       "(\<forall>q\<in>set post. key (py_min_by key x xs) \<le> key q)" by blast
  have "x # xs = (x # pre) @ py_min_by key x xs # post" using p(1) by simp
  then show ?thesis using p(2-) by (intro exI[of _ "x # pre"] exI[of _ post]) auto
qed

lemma update_mid:
  "k \<notin> fst ` set pre \<Longrightarrow> AList.update k v (pre @ (k, c) # post) = pre @ (k, v) # post"
  by (induction pre) auto

lemma counter_get_mid:
  "k \<notin> fst ` set pre \<Longrightarrow> counter_get (pre @ (k, c) # post) k = c"
  by (induction pre) (auto simp: counter_get_def)

lemma get_next_spec:
  assumes "distinct (map fst (vm_counts vm))" "vm_counts vm \<noteq> []"
  shows "\<exists>v vm' pre c post. get_next vm = Inr (v, vm') \<and>
           vm_counts vm = pre @ (v, c) # post \<and>
           (\<forall>p\<in>set pre. c < snd p) \<and> (\<forall>q\<in>set post. c \<le> snd q) \<and>
           vm_counts vm' = pre @ (v, c + 1) # post \<and> vm_values vm' = vm_values vm"
proof -
  from assms(2) obtain x xs where xs: "vm_counts vm = x # xs" by (cases "vm_counts vm") auto
  obtain pre post where p: "x # xs = pre @ py_min_by snd x xs # post"
       "(\<forall>p\<in>set pre. snd (py_min_by snd x xs) < snd p)"
       "(\<forall>q\<in>set post. snd (py_min_by snd x xs) \<le> snd q)"
    using py_min_by_first [of x xs snd] by blast
  obtain v c where vc: "py_min_by snd x xs = (v, c)" by (cases "py_min_by snd x xs")
  have d: "v \<notin> fst ` set pre" using assms(1) xs p(1) vc by auto
  have "get_next vm = Inr (v, vm\<lparr>vm_counts := pre @ (v, c + 1) # post\<rparr>)"
    unfolding get_next_def xs list.case vc Let_def fst_conv
    using p(1) vc d by (simp add: update_mid counter_get_mid)
  then show ?thesis using xs p vc by auto
qed


lemma get_next_balanced:
  assumes "distinct (map fst (vm_counts vm))" "vm_counts vm \<noteq> []" "balanced (vm_counts vm)"
  shows "\<exists>v vm'. get_next vm = Inr (v, vm') \<and> distinct (map fst (vm_counts vm')) \<and>
           vm_counts vm' \<noteq> [] \<and> balanced (vm_counts vm') \<and>
           map fst (vm_counts vm') = map fst (vm_counts vm)"
proof -
  obtain v vm' pre c post where g: "get_next vm = Inr (v, vm')"
      "vm_counts vm = pre @ (v, c) # post"
      "\<forall>p\<in>set pre. c < snd p" "\<forall>q\<in>set post. c \<le> snd q"
      "vm_counts vm' = pre @ (v, c + 1) # post"
    using get_next_spec [OF assms(1,2)] by blast
  from assms(3) obtain m where m: "\<forall>d\<in>snd ` set (vm_counts vm). m \<le> d \<and> d \<le> m + 1"
    unfolding balanced_def by blast
  have keys: "map fst (vm_counts vm') = map fst (vm_counts vm)" using g(2,5) by simp
  have cm: "m \<le> c \<and> c \<le> m + 1" using m g(2) by simp
  have "balanced (vm_counts vm')"
  proof (cases "c = m")
    case True
    have "\<forall>d\<in>snd ` set (vm_counts vm'). m \<le> d \<and> d \<le> m + 1"
      using m g(2,5) True by auto
    then show ?thesis unfolding balanced_def by blast
  next
    case False
    then have c: "c = m + 1" using cm by simp
    have "\<forall>d\<in>snd ` set (vm_counts vm'). m + 1 \<le> d \<and> d \<le> (m + 1) + 1"
    proof
      fix d assume "d \<in> snd ` set (vm_counts vm')"
      then have "d \<in> snd ` set pre \<or> d = c + 1 \<or> d \<in> snd ` set post"
        unfolding g(5) by auto
      moreover have "\<forall>e\<in>snd ` set pre. m + 1 < e \<and> e \<le> m + 1" using m g(2,3) c by auto
      moreover have "\<forall>e\<in>snd ` set post. m + 1 \<le> e \<and> e \<le> m + 1" using m g(2,4) c by auto
      ultimately show "m + 1 \<le> d \<and> d \<le> (m + 1) + 1" using c by auto
    qed
    then show ?thesis unfolding balanced_def by blast
  qed
  then show ?thesis using g(1,5) keys assms(1) by simp
qed

lemma get_next_n_balanced:
  "distinct (map fst (vm_counts vm)) \<Longrightarrow> vm_counts vm \<noteq> [] \<Longrightarrow> balanced (vm_counts vm) \<Longrightarrow>
   \<exists>outs vm'. get_next_n n vm = Inr (outs, vm') \<and> balanced (vm_counts vm') \<and>
      map fst (vm_counts vm') = map fst (vm_counts vm)"
proof (induction n arbitrary: vm)
  case 0
  then show ?case by simp
next
  case (Suc n)
  obtain v vm1 where s: "get_next vm = Inr (v, vm1)" "distinct (map fst (vm_counts vm1))"
      "vm_counts vm1 \<noteq> []" "balanced (vm_counts vm1)"
      "map fst (vm_counts vm1) = map fst (vm_counts vm)"
    using get_next_balanced [OF Suc.prems] by blast
  obtain outs vm' where r: "get_next_n n vm1 = Inr (outs, vm')" "balanced (vm_counts vm')"
      "map fst (vm_counts vm') = map fst (vm_counts vm1)"
    using Suc.IH [OF s(2,3,4)] by blast
  show ?case using s(1,5) r by simp
qed

lemma counter_init_distinct:
  "distinct (map fst d) \<Longrightarrow> distinct (map fst (foldl (\<lambda>d v. AList.update v (0::int) d) d vs))"
  by (induction vs arbitrary: d) (simp_all add: distinct_update)

lemma counter_init_keys:
  "set (map fst (foldl (\<lambda>d v. AList.update v (0::int) d) d vs)) = set (map fst d) \<union> set vs"
  by (induction vs arbitrary: d) (simp_all add: dom_update Un_ac)

lemma counter_init_zero:
  "\<forall>c\<in>snd ` set d. c = 0 \<Longrightarrow> \<forall>c\<in>snd ` set (foldl (\<lambda>d v. AList.update v (0::int) d) d vs). c = 0"
proof (induction vs arbitrary: d)
  case Nil
  then show ?case by simp
next
  case (Cons v vs)
  have "\<forall>c\<in>snd ` set (AList.update v 0 d). c = 0"
    using Cons.prems by (induction d) auto
  then show ?case using Cons.IH by simp
qed


lemma abc4:
  assumes "distinct [a, b, c]"
  shows "\<exists>vm'. get_next_n 4 (ValueManager_init [a, b, c]) = Inr ([a, b, c, a], vm')"
proof -
  have n: "a \<noteq> b" "a \<noteq> c" "b \<noteq> c" "b \<noteq> a" "c \<noteq> a" "c \<noteq> b" using assms by auto
  have i: "ValueManager_init [a, b, c] = \<lparr>vm_values = [a, b, c], vm_counts = [(a, 0), (b, 0), (c, 0)]\<rparr>"
    using n by (simp add: ValueManager_init_def)
  have 1: "get_next \<lparr>vm_values = [a, b, c], vm_counts = [(a, 0), (b, 0), (c, 0)]\<rparr>
      = Inr (a, \<lparr>vm_values = [a, b, c], vm_counts = [(a, 1), (b, 0), (c, 0)]\<rparr>)"
    using n by (simp add: get_next_def counter_get_def)
  have 2: "get_next \<lparr>vm_values = [a, b, c], vm_counts = [(a, 1), (b, 0), (c, 0)]\<rparr>
      = Inr (b, \<lparr>vm_values = [a, b, c], vm_counts = [(a, 1), (b, 1), (c, 0)]\<rparr>)"
    using n by (simp add: get_next_def counter_get_def)
  have 3: "get_next \<lparr>vm_values = [a, b, c], vm_counts = [(a, 1), (b, 1), (c, 0)]\<rparr>
      = Inr (c, \<lparr>vm_values = [a, b, c], vm_counts = [(a, 1), (b, 1), (c, 1)]\<rparr>)"
    using n by (simp add: get_next_def counter_get_def)
  have 4: "get_next \<lparr>vm_values = [a, b, c], vm_counts = [(a, 1), (b, 1), (c, 1)]\<rparr>
      = Inr (a, \<lparr>vm_values = [a, b, c], vm_counts = [(a, 2), (b, 1), (c, 1)]\<rparr>)"
    using n by (simp add: get_next_def counter_get_def)
  show ?thesis unfolding i by (simp add: numeral_eq_Suc 1 2 3 4)
qed

lemma obs:
  assumes "distinct [a, b, c]"
  shows "\<exists>vm1 vm2. increment (ValueManager_init [a, b, c]) a = Inr vm1 \<and> get_next vm1 = Inr (b, vm2)"
proof -
  have n: "a \<noteq> b" "a \<noteq> c" "b \<noteq> c" "b \<noteq> a" "c \<noteq> a" "c \<noteq> b" using assms by auto
  have i: "ValueManager_init [a, b, c] = \<lparr>vm_values = [a, b, c], vm_counts = [(a, 0), (b, 0), (c, 0)]\<rparr>"
    using n by (simp add: ValueManager_init_def)
  have 1: "increment \<lparr>vm_values = [a, b, c], vm_counts = [(a, 0), (b, 0), (c, 0)]\<rparr> a
      = Inr \<lparr>vm_values = [a, b, c], vm_counts = [(a, 1), (b, 0), (c, 0)]\<rparr>"
    using n by (simp add: increment_def counter_get_def)
  have 2: "get_next \<lparr>vm_values = [a, b, c], vm_counts = [(a, 1), (b, 0), (c, 0)]\<rparr>
      = Inr (b, \<lparr>vm_values = [a, b, c], vm_counts = [(a, 1), (b, 1), (c, 0)]\<rparr>)"
    using n by (simp add: get_next_def counter_get_def)
  show ?thesis unfolding i using 1 2 by simp
qed

lemma counter_init_order:
  "map fst (foldl (\<lambda>d v. AList.update v (0::int) d) [] vs) = first_occurrences vs"
proof (induction vs rule: rev_induct)
  case Nil
  then show ?case by (simp add: first_occurrences_def)
next
  case (snoc v vs)
  have s: "set (first_occurrences vs) = set vs" by (simp add: first_occurrences_def)
  show ?case using snoc s by (simp add: update_keys first_occurrences_def)
qed

lemma update_keys_existing:
  "k \<in> fst ` set al \<Longrightarrow> map fst (AList.update k v al) = map fst al"
  by (simp add: update_keys)

lemma py_min_by_in: "py_min_by key best xs \<in> set (best # xs)"
  by (induction xs arbitrary: best) auto

lemma get_next_keys:
  assumes "get_next vm = Inr (v, vm')"
  shows "map fst (vm_counts vm') = map fst (vm_counts vm) \<and> vm_values vm' = vm_values vm"
proof (cases "vm_counts vm")
  case Nil
  then show ?thesis using assms by (simp add: get_next_def)
next
  case (Cons x xs)
  have "fst (py_min_by snd x xs) \<in> fst ` set (x # xs)"
    using py_min_by_in [of snd x xs] by (rule imageI)
  then have "map fst (AList.update (fst (py_min_by snd x xs)) n (x # xs)) = map fst (x # xs)" for n
    by (rule update_keys_existing)
  then show ?thesis using assms Cons by (auto simp: get_next_def Let_def)
qed

lemma reachable_keys:
  "reachable vm \<Longrightarrow> map fst (vm_counts vm) = first_occurrences (vm_values vm)"
proof (induction rule: reachable.induct)
  case (fresh vs)
  then show ?case by (simp add: ValueManager_init_def counter_init_order)
next
  case (after_next vm v vm')
  then show ?case using get_next_keys [of vm v vm'] by simp
next
  case (after_increment vm item vm')
  have "set (first_occurrences (vm_values vm)) = set (vm_values vm)" by (simp add: first_occurrences_def)
  with after_increment show ?case
    by (auto simp: increment_def update_keys split: if_splits)
qed

lemma first_occurrences_distinct: "distinct (first_occurrences xs)"
  by (simp add: first_occurrences_def)

lemma first_occurrences_Nil: "first_occurrences xs = [] \<longleftrightarrow> xs = []"
  by (simp add: first_occurrences_def)


text \<open>
  Claim C8. In every state a \<^verbatim>\<open>ValueManager\<close> can reach, \<^verbatim>\<open>get_next\<close> returns the
  candidate whose counter is smallest, the earliest declared one among equals (every counter
  before it in declaration order is strictly larger, none after it is smaller), and adds one to
  exactly that counter. On a fresh manager over three different values \<open>a\<close>, \<open>b\<close>, \<open>c\<close>,
  four calls return \<open>a\<close>, \<open>b\<close>, \<open>c\<close>, \<open>a\<close>; after one \<^verbatim>\<open>increment(a)\<close> on a fresh
  manager the next call returns \<open>b\<close>.
\<close>

theorem get_next_least_used:
  "(reachable vm \<and> vm_values vm \<noteq> [] \<longrightarrow>
      (\<exists>v vm' pre c post. get_next vm = Inr (v, vm') \<and>
           map fst (vm_counts vm) = first_occurrences (vm_values vm) \<and>
           vm_counts vm = pre @ (v, c) # post \<and>
           (\<forall>p\<in>set pre. c < snd p) \<and> (\<forall>q\<in>set post. c \<le> snd q) \<and>
           vm_counts vm' = pre @ (v, c + 1) # post \<and> vm_values vm' = vm_values vm)) \<and>
   (distinct [a, b, c] \<longrightarrow>
      (\<exists>vm'. get_next_n 4 (ValueManager_init [a, b, c]) = Inr ([a, b, c, a], vm')) \<and>
      (\<exists>vm1 vm2. increment (ValueManager_init [a, b, c]) a = Inr vm1 \<and>
                  get_next vm1 = Inr (b, vm2)))"
proof (intro conjI impI)
  assume r: "reachable vm \<and> vm_values vm \<noteq> []"
  then have k: "map fst (vm_counts vm) = first_occurrences (vm_values vm)"
    by (simp add: reachable_keys)
  have d: "distinct (map fst (vm_counts vm))" unfolding k by (rule first_occurrences_distinct)
  have ne: "vm_counts vm \<noteq> []" using k r first_occurrences_Nil [of "vm_values vm"] by auto
  show "\<exists>v vm' pre c post. get_next vm = Inr (v, vm') \<and>
           map fst (vm_counts vm) = first_occurrences (vm_values vm) \<and>
           vm_counts vm = pre @ (v, c) # post \<and>
           (\<forall>p\<in>set pre. c < snd p) \<and> (\<forall>q\<in>set post. c \<le> snd q) \<and>
           vm_counts vm' = pre @ (v, c + 1) # post \<and> vm_values vm' = vm_values vm"
    using get_next_spec [OF d ne] k by blast
next
  assume "distinct [a, b, c]"
  then show "\<exists>vm'. get_next_n 4 (ValueManager_init [a, b, c]) = Inr ([a, b, c, a], vm')"
    by (rule abc4)
next
  assume "distinct [a, b, c]"
  then show "\<exists>vm1 vm2. increment (ValueManager_init [a, b, c]) a = Inr vm1 \<and>
                  get_next vm1 = Inr (b, vm2)"
    by (rule obs)
qed

theorem get_next_least_used_witness:
  "reachable (ValueManager_init [''fsn1'', ''nbg1'', ''hel1'']) \<and>
   vm_values (ValueManager_init [''fsn1'', ''nbg1'', ''hel1'']) \<noteq> [] \<and>
   (\<exists>vm'. get_next (ValueManager_init [''fsn1'', ''nbg1'', ''hel1'']) = Inr (''fsn1'', vm')) \<and>
   distinct [''a'', ''b'', ''c''] \<and>
   (\<exists>vm'. get_next_n 4 (ValueManager_init [''a'', ''b'', ''c'']) =
           Inr ([''a'', ''b'', ''c'', ''a''], vm')) \<and>
   (\<exists>vm1 vm2. increment (ValueManager_init [''a'', ''b'', ''c'']) ''a'' = Inr vm1 \<and>
               get_next vm1 = Inr (''b'', vm2))"
proof -
  have r: "reachable (ValueManager_init [''fsn1'', ''nbg1'', ''hel1''])" by (rule reachable.fresh)
  have v: "vm_values (ValueManager_init [''fsn1'', ''nbg1'', ''hel1'']) \<noteq> []"
    by (simp add: ValueManager_init_def)
  have d: "distinct [''a'', ''b'', ''c'']" by simp
  have g: "\<exists>vm'. get_next (ValueManager_init [''fsn1'', ''nbg1'', ''hel1'']) = Inr (''fsn1'', vm')"
    by (simp add: ValueManager_init_def get_next_def counter_get_def Let_def)
  from get_next_least_used [of "ValueManager_init [''fsn1'', ''nbg1'', ''hel1'']" "''a''" "''b''" "''c''"] r v d g
  show ?thesis by blast
qed

text \<open>
  Claim C9. From a fresh \<^verbatim>\<open>ValueManager\<close> over a non-empty candidate list, any number of
  \<^verbatim>\<open>get_next\<close> calls alone succeeds and leaves usage counters whose largest and smallest
  differ by at most one.
\<close>

theorem get_next_fairness:
  assumes "vs \<noteq> []"
  shows "\<exists>outs vm'. get_next_n n (ValueManager_init vs) = Inr (outs, vm') \<and>
           set (map fst (vm_counts vm')) = set vs \<and>
           Max (snd ` set (vm_counts vm')) - Min (snd ` set (vm_counts vm')) \<le> 1"
proof -
  let ?vm = "ValueManager_init vs"
  have d: "distinct (map fst (vm_counts ?vm))"
    by (simp add: ValueManager_init_def counter_init_distinct)
  have k: "set (map fst (vm_counts ?vm)) = set vs"
    using counter_init_keys [of "[]" vs] by (simp add: ValueManager_init_def)
  have ne: "vm_counts ?vm \<noteq> []" using k assms by auto
  have "\<forall>c\<in>snd ` set (vm_counts ?vm). c = 0"
    using counter_init_zero [of "[]" vs] by (simp add: ValueManager_init_def)
  then have b: "balanced (vm_counts ?vm)" unfolding balanced_def by (intro exI[of _ 0]) auto
  obtain outs vm' where r: "get_next_n n ?vm = Inr (outs, vm')" "balanced (vm_counts vm')"
      "map fst (vm_counts vm') = map fst (vm_counts ?vm)"
    using get_next_n_balanced [OF d ne b] by blast
  have ne': "vm_counts vm' \<noteq> []" using r(3) ne by auto
  let ?S = "snd ` set (vm_counts vm')"
  have fin: "finite ?S" "?S \<noteq> {}" using ne' by auto
  from r(2) obtain m where m: "\<forall>c\<in>?S. m \<le> c \<and> c \<le> m + 1" unfolding balanced_def by blast
  have "Max ?S \<le> m + 1" using m fin by (simp add: Max_le_iff)
  moreover have "m \<le> Min ?S" using m fin by (simp add: Min_ge_iff)
  ultimately have "Max ?S - Min ?S \<le> 1" by linarith
  moreover have "set (map fst (vm_counts vm')) = set vs" using r(3) k by simp
  ultimately show ?thesis using r(1) by blast
qed

theorem get_next_fairness_witness:
  "[''fsn1'', ''nbg1'', ''hel1''] \<noteq> [] \<and>
   (\<exists>outs vm'. get_next_n 5 (ValueManager_init [''fsn1'', ''nbg1'', ''hel1'']) = Inr (outs, vm') \<and>
      set (map fst (vm_counts vm')) = set [''fsn1'', ''nbg1'', ''hel1''] \<and>
      Max (snd ` set (vm_counts vm')) - Min (snd ` set (vm_counts vm')) \<le> 1)"
proof -
  have ne: "[''fsn1'', ''nbg1'', ''hel1''] \<noteq> []" by simp
  show ?thesis using ne get_next_fairness [OF ne, of 5] by blast
qed

section \<open>Properties of HostTimeAssigner\<close>

lemma hta_example_init:
  "HostTimeAssigner_init
     [(''control'', PInt 3), (''worker_small'', PInt 2), (''worker_big'', PInt 1)] ''02:00'' ''03:00'' =
   Some (Inr \<lparr>hta_start_time = 120, hta_end_time = 180,
              hta_groups = [(''control'', PInt 3), (''worker_small'', PInt 2), (''worker_big'', PInt 1)],
              hta_total_hosts = 6,
              hta_group_slots =
                [(''control'', [120, 156, 180]), (''worker_small'', [132, 168]), (''worker_big'', [144])],
              hta_group_slot_index = [(''control'', 0), (''worker_small'', 0), (''worker_big'', 0)]\<rparr>)"
  by code_simp

text \<open>
  Claim C7. The assigner built from the counts control 3, worker_small 2, worker_big 1 and the
  window 02:00 to 03:00 gives control the slots 02:00, 02:36, 03:00, worker_small 02:12, 02:48
  and worker_big 02:24: the six slots are 12 minutes apart and the groups take turns in their
  declared order.
\<close>

theorem hta_example_slots:
  "\<exists>hta. HostTimeAssigner_init
             [(''control'', PInt 3), (''worker_small'', PInt 2), (''worker_big'', PInt 1)]
             ''02:00'' ''03:00'' = Some (Inr hta) \<and>
         get_all_slots hta ''control'' = Inr [''02:00'', ''02:36'', ''03:00''] \<and>
         get_all_slots hta ''worker_small'' = Inr [''02:12'', ''02:48''] \<and>
         get_all_slots hta ''worker_big'' = Inr [''02:24''] \<and>
         interleave_groups [(''control'', 3), (''worker_small'', 2), (''worker_big'', 1)] =
           Some (Inr [''control'', ''worker_small'', ''worker_big'', ''control'', ''worker_small'',
                      ''control'']) \<and>
         all_slots 120 60 6 = map (\<lambda>i. 120 + i * 12) [0..<6]"
proof -
  let ?h = "\<lparr>hta_start_time = 120, hta_end_time = 180,
              hta_groups = [(''control'', PInt 3), (''worker_small'', PInt 2), (''worker_big'', PInt 1)],
              hta_total_hosts = 6,
              hta_group_slots =
                [(''control'', [120, 156, 180]), (''worker_small'', [132, 168]), (''worker_big'', [144])],
              hta_group_slot_index = [(''control'', 0), (''worker_small'', 0), (''worker_big'', 0)]\<rparr>"
  have 1: "get_all_slots ?h ''control'' = Inr [''02:00'', ''02:36'', ''03:00'']" by code_simp
  have 2: "get_all_slots ?h ''worker_small'' = Inr [''02:12'', ''02:48'']" by code_simp
  have 3: "get_all_slots ?h ''worker_big'' = Inr [''02:24'']" by code_simp
  have 4: "interleave_groups [(''control'', 3), (''worker_small'', 2), (''worker_big'', 1)] =
           Some (Inr [''control'', ''worker_small'', ''worker_big'', ''control'', ''worker_small'',
                      ''control''])" by code_simp
  have 5: "all_slots 120 60 6 = map (\<lambda>i. 120 + i * 12) [0..<6]" by code_simp
  show ?thesis using hta_example_init 1 2 3 4 5 by blast
qed

end
